theory Spec2Isabelle
  imports Complex_Main
begin

section \<open>Values of the program\<close>

text \<open>
  The model follows \<^verbatim>\<open>src/src/IzanamiAlgorithm.js\<close>. The counters and the two
  integer options are \<^typ>\<open>int\<close>. The initial delay and the growth factor are finite
  numbers, taken as \<^typ>\<open>real\<close>; what the program computes from them in double
  arithmetic is not evaluated (see \<open>product\<close> below). Console output is not modelled, and
  of the logger only the records given to \<^verbatim>\<open>logger.error\<close> are.
\<close>

text \<open>
  A value that a task or a reflection strategy rejects with. The program reads its
  properties \<^verbatim>\<open>message\<close> and \<^verbatim>\<open>stack\<close>: on \<^verbatim>\<open>null\<close> and \<^verbatim>\<open>undefined\<close> that
  read throws a \<^verbatim>\<open>TypeError\<close>; on any other value it gives the property, or
  \<^verbatim>\<open>undefined\<close> (\<open>None\<close>) when the value has none. An \<^verbatim>\<open>Error\<close> object has both.
\<close>

datatype js_value = Nullish | Object (message: "string option") (stack: "string option")

text \<open>What awaiting a caller-supplied asynchronous function gives: it resolves, or it rejects.\<close>

datatype outcome = Resolves | Rejects js_value

text \<open>
  The task is opaque. Its behaviour is given by the outcome of each of its invocations,
  counted from 0 over the life of the instance; the arguments forwarded to it are part of
  that behaviour and are not modelled apart. Every invocation is taken to settle. The
  reflection strategy is a function of the error list it receives.
\<close>

type_synonym task_fn = "nat \<Rightarrow> outcome"
type_synonym reflection_fn = "js_value list \<Rightarrow> outcome"

text \<open>The value found under \<^verbatim>\<open>options.task\<close>, as \<^verbatim>\<open>typeof\<close> sees it.\<close>

datatype js_task = Undefined | NotAFunction | Function task_fn

record options =
  opt_task :: js_task
  opt_maxAttempts :: "int option"
  opt_errorThreshold :: "int option"
  opt_backoffFactor :: "real option"
  opt_initialDelay :: "real option"
  opt_onReflection :: "reflection_fn option"
  opt_logFile :: "string option"

text \<open>What escapes a function as an exception.\<close>

datatype thrown =
    Error string
  | ERR_UNHANDLED_ERROR int js_value
  | TypeError

text \<open>
  The instance: the configuration, the run state (\<^verbatim>\<open>attempts\<close>, \<^verbatim>\<open>errors\<close>,
  \<^verbatim>\<open>errorLoop\<close>), and of the inherited \<^verbatim>\<open>EventEmitter\<close> the number of listeners
  registered for the event \<^verbatim>\<open>'error'\<close>.
\<close>

record izanami =
  task :: task_fn
  maxAttempts :: int
  errorThreshold :: int
  backoffFactor :: real
  initialDelay :: real
  onReflection :: reflection_fn
  logFile :: string
  attempts :: int
  errors :: "js_value list"
  errorLoop :: bool
  errorListeners :: nat

section \<open>The constructor\<close>

text \<open>
  \<^verbatim>\<open>x || d\<close> on an optional number: \<^verbatim>\<open>undefined\<close> and \<^verbatim>\<open>0\<close> are falsy, so both
  give the default.
\<close>

definition or_default :: "'a::zero option \<Rightarrow> 'a \<Rightarrow> 'a" where
  "or_default x d = (case x of None \<Rightarrow> d | Some v \<Rightarrow> if v = 0 then d else v)"

text \<open>The same on an optional string (the empty string is falsy).\<close>

definition or_default_string :: "string option \<Rightarrow> string \<Rightarrow> string" where
  "or_default_string x d = (case x of None \<Rightarrow> d | Some v \<Rightarrow> if v = [] then d else v)"

text \<open>
  \<^verbatim>\<open>defaultReflection\<close> reads the message of every error it is given, prints the
  distinct messages and resolves. Reading the message of \<^verbatim>\<open>null\<close> or \<^verbatim>\<open>undefined\<close>
  throws, and the asynchronous function then rejects with that \<^verbatim>\<open>TypeError\<close> (an
  \<^verbatim>\<open>Error\<close> object; the wording of its message is the engine's).
\<close>

definition typeError :: js_value where
  "typeError = Object (Some ''Cannot read properties of undefined'')
                      (Some ''TypeError: Cannot read properties of undefined'')"

definition defaultReflection :: reflection_fn where
  "defaultReflection errs = (if Nullish \<in> set errs then Rejects typeError else Resolves)"

text \<open>
  \<^verbatim>\<open>path.join(__dirname, '..', 'logs', 'error.log')\<close>: an absolute path that depends
  on where the package is installed; the model keeps the part below the package directory.
\<close>

definition default_logFile :: string where
  "default_logFile = ''logs/error.log''"

definition constructor :: "options option \<Rightarrow> thrown + izanami" where
  "constructor options =
     (case options of
        None \<Rightarrow> Inl (Error ''A valid task function must be provided.'')
      | Some opts \<Rightarrow>
          (case opt_task opts of
             Function f \<Rightarrow>
               Inr \<lparr> task = f,
                     maxAttempts = or_default (opt_maxAttempts opts) 5,
                     errorThreshold = or_default (opt_errorThreshold opts) 3,
                     backoffFactor = or_default (opt_backoffFactor opts) 2,
                     initialDelay = or_default (opt_initialDelay opts) 1000,
                     onReflection =
                       (case opt_onReflection opts of None \<Rightarrow> defaultReflection | Some g \<Rightarrow> g),
                     logFile = or_default_string (opt_logFile opts) default_logFile,
                     attempts = 0,
                     errors = [],
                     errorLoop = False,
                     errorListeners = 0 \<rparr>
           | _ \<Rightarrow> Inl (Error ''A valid task function must be provided.'')))"

text \<open>\<^verbatim>\<open>izanami.on('error', listener)\<close>, inherited from \<^verbatim>\<open>EventEmitter\<close>.\<close>

definition on_error :: "izanami \<Rightarrow> izanami" where
  "on_error this = this\<lparr>errorListeners := Suc (errorListeners this)\<rparr>"

section \<open>Effects\<close>

text \<open>
  The notifications (\<^verbatim>\<open>this.emit\<close>), the records given to the logger, the calls of
  the task and of the reflection strategy and the delays are the observable actions of a
  run, kept in the order in which they happen.
\<close>

datatype event =
    BeforeAttempt int
  | Success int
  | ErrorEvent int js_value
  | Reflection "js_value list"
  | ReflectionExit
  | Failure "js_value list"

datatype log_entry =
    AttemptFailed int "string option" "string option"
  | ReflectionFailed "string option" "string option"

text \<open>
  The number that \<^verbatim>\<open>d * Math.pow(b, n)\<close> evaluates to. Both operations are those of
  IEEE double arithmetic: they round, they overflow to \<^verbatim>\<open>Infinity\<close>, and
  \<^verbatim>\<open>Math.pow\<close> is approximated by the engine. The model keeps the expression with its
  operands and claims nothing about its value.
\<close>

datatype pow = Math_pow real int

datatype product = Times real pow

text \<open>
  \<open>CallOnReflection b errs\<close>: the strategy is called with \<open>errs\<close>, on an instance whose
  \<^verbatim>\<open>errorLoop\<close> is \<open>b\<close> at that moment.
\<close>

datatype action =
    Emit event
  | CallTask
  | LoggerError log_entry
  | Sleep product
  | CallOnReflection bool "js_value list"

text \<open>The run state as it can be seen from outside: attempts, errors, errorLoop.\<close>

type_synonym run_state = "int \<times> js_value list \<times> bool"

definition run_state :: "izanami \<Rightarrow> run_state" where
  "run_state this = (attempts this, errors this, errorLoop this)"

text \<open>
  The world outside the instance: the actions so far, the number of calls of the task so
  far, and for each action the run state in which it happened (\<open>observed\<close> is as long
  as \<open>trace\<close>).
\<close>

record world =
  trace :: "action list"
  calls :: nat
  observed :: "run_state list"

definition perform :: "action \<Rightarrow> izanami \<Rightarrow> world \<Rightarrow> world" where
  "perform a this w = w\<lparr>trace := trace w @ [a], observed := observed w @ [run_state this]\<rparr>"

text \<open>
  \<^verbatim>\<open>EventEmitter.prototype.emit\<close> of Node's \<^verbatim>\<open>events\<close> module, which the class
  extends. For an event other than \<^verbatim>\<open>'error'\<close> it calls the listeners, if any, and
  returns; listeners are taken to return normally and to leave the instance alone. For
  \<^verbatim>\<open>'error'\<close> it first looks whether a listener is registered for that event, and
  throws when there is none (``If there is no 'error' event listener then throw''): the
  payload \<^verbatim>\<open>{ attempt, error }\<close> is not an instance of \<^verbatim>\<open>Error\<close>, so what is thrown is
  a new \<^verbatim>\<open>ERR_UNHANDLED_ERROR\<close> with the payload as its context.
\<close>

definition emit :: "event \<Rightarrow> izanami \<Rightarrow> world \<Rightarrow> world" where
  "emit ev this w = perform (Emit ev) this w"

definition emit_error :: "int \<Rightarrow> js_value \<Rightarrow> izanami \<Rightarrow> world \<Rightarrow> thrown + world" where
  "emit_error n e this w =
     (if errorListeners this = 0 then Inl (ERR_UNHANDLED_ERROR n e)
      else Inr (emit (ErrorEvent n e) this w))"

definition sleep :: "product \<Rightarrow> izanami \<Rightarrow> world \<Rightarrow> world" where
  "sleep ms this w = perform (Sleep ms) this w"

section \<open>The run\<close>

definition reset :: "izanami \<Rightarrow> izanami" where
  "reset this = this\<lparr>attempts := 0, errors := [], errorLoop := False\<rparr>"

text \<open>
  \<^verbatim>\<open>enterReflectionPhase\<close>. The \<^verbatim>\<open>catch\<close> block reads
  \<^verbatim>\<open>reflectionError.message\<close> first (for the console, then for the logger): when the
  strategy rejects with \<^verbatim>\<open>null\<close> or \<^verbatim>\<open>undefined\<close> that read throws, nothing is
  logged, and the \<^verbatim>\<open>TypeError\<close> leaves the function.
\<close>

definition enterReflectionPhase :: "izanami \<Rightarrow> world \<Rightarrow> thrown option \<times> izanami \<times> world" where
  "enterReflectionPhase this w =
     (let this1 = this\<lparr>errorLoop := True\<rparr>;
          w1 = perform (CallOnReflection (errorLoop this1) (errors this1)) this1 w
      in case onReflection this1 (errors this1) of
           Resolves \<Rightarrow> (None, this1, emit (Reflection (errors this1)) this1 w1)
         | Rejects reflectionError \<Rightarrow>
             if reflectionError = Nullish then (Some TypeError, this1, w1)
             else (None, this1,
                   perform (LoggerError (ReflectionFailed (message reflectionError)
                                           (stack reflectionError))) this1 w1))"

text \<open>
  How one pass through the body of the \<^verbatim>\<open>while\<close> loop ends: at the end of the body,
  by the \<^verbatim>\<open>return\<close> after a success, or by an exception leaving the \<^verbatim>\<open>catch\<close>
  block. In the \<^verbatim>\<open>catch\<close> block the error is pushed first; then the record for the
  logger is built, which reads \<^verbatim>\<open>error.message\<close> and throws when the task rejected
  with \<^verbatim>\<open>null\<close> or \<^verbatim>\<open>undefined\<close>; then the error notification is published.
\<close>

datatype flow = Next | Return | Throw thrown

definition iteration :: "izanami \<Rightarrow> world \<Rightarrow> flow \<times> izanami \<times> world" where
  "iteration this w =
     (let this1 = this\<lparr>attempts := attempts this + 1\<rparr>;
          w1 = emit (BeforeAttempt (attempts this1)) this1 w;
          w2 = (perform CallTask this1 w1)\<lparr>calls := Suc (calls w1)\<rparr>
      in case task this1 (calls w1) of
           Resolves \<Rightarrow> (Return, this1, emit (Success (attempts this1)) this1 w2)
         | Rejects error \<Rightarrow>
             (let this2 = this1\<lparr>errors := errors this1 @ [error]\<rparr>
              in if error = Nullish then (Throw TypeError, this2, w2)
                 else
                   (let w3 = perform (LoggerError (AttemptFailed (attempts this2) (message error)
                                                     (stack error))) this2 w2
                    in case emit_error (attempts this2) error this2 w3 of
                         Inl x \<Rightarrow> (Throw x, this2, w3)
                       | Inr w4 \<Rightarrow>
                           if errorThreshold this2 \<le> int (length (errors this2))
                           then (case enterReflectionPhase this2 w4 of
                                   (None, this3, w5) \<Rightarrow> (Next, this3, w5)
                                 | (Some x, this3, w5) \<Rightarrow> (Throw x, this3, w5))
                           else (let delay = Times (initialDelay this2)
                                               (Math_pow (backoffFactor this2) (attempts this2 - 1))
                                 in (Next, this2, sleep delay this2 w4)))))"

function run_loop :: "izanami \<Rightarrow> world \<Rightarrow> flow \<times> izanami \<times> world" where
  "run_loop this w =
     (if attempts this < maxAttempts this \<and> \<not> errorLoop this
      then (case iteration this w of
              (Next, this', w') \<Rightarrow> run_loop this' w'
            | r \<Rightarrow> r)
      else (Next, this, w))"
  by pat_completeness auto
termination
proof (relation "measure (\<lambda>(this, w). nat (maxAttempts this - attempts this))")
  show "wf (measure (\<lambda>(this, w). nat (maxAttempts this - attempts this)))"
    by simp
next
  fix this :: izanami and w :: world and x1 x2 this' w'
  assume guard: "attempts this < maxAttempts this \<and> \<not> errorLoop this"
    and it: "(x1, x2) = iteration this w" "(this', w') = x2" "x1 = Next"
  from it have "iteration this w = (Next, this', w')"
    by simp
  then have "attempts this' = attempts this + 1 \<and> maxAttempts this' = maxAttempts this"
    by (auto simp: iteration_def enterReflectionPhase_def Let_def
             split: outcome.splits sum.splits if_splits option.splits prod.splits)
  with guard
  show "((this', w'), (this, w)) \<in> measure (\<lambda>(this, w). nat (maxAttempts this - attempts this))"
    by simp
qed

declare run_loop.simps [simp del]

text \<open>How the promise returned by the asynchronous \<^verbatim>\<open>runTask\<close> settles.\<close>

datatype settled = Fulfilled | Rejected thrown

definition runTask :: "izanami \<Rightarrow> world \<Rightarrow> settled \<times> izanami \<times> world" where
  "runTask this w =
     (case run_loop this w of
        (Return, this', w') \<Rightarrow> (Fulfilled, this', w')
      | (Throw x, this', w') \<Rightarrow> (Rejected x, this', w')
      | (Next, this', w') \<Rightarrow>
          if errorLoop this'
          then (let w1 = emit ReflectionExit this' w'
                in (Fulfilled, reset this', w1))
          else (Fulfilled, this', emit (Failure (errors this')) this' w'))"

section \<open>Vocabulary of the properties\<close>

text \<open>What a run adds to the trace and to the observed run states.\<close>

definition new_trace :: "world \<Rightarrow> world \<Rightarrow> action list" where
  "new_trace w w' = drop (length (trace w)) (trace w')"

definition new_observed :: "world \<Rightarrow> world \<Rightarrow> run_state list" where
  "new_observed w w' = drop (length (observed w)) (observed w')"

text \<open>
  The invariant of the run state: the attempts do not exceed \<^verbatim>\<open>maxAttempts\<close>, and
  there are at most as many recorded errors as attempts.
\<close>

definition runstate_inv :: "int \<Rightarrow> run_state \<Rightarrow> bool" where
  "runstate_inv maxA s = (case s of (a, es, l) \<Rightarrow> a \<le> maxA \<and> int (length es) \<le> a)"


text \<open>The configuration is the same in two states of the instance.\<close>

definition same_config :: "izanami \<Rightarrow> izanami \<Rightarrow> bool" where
  "same_config this this' =
     (task this' = task this \<and> maxAttempts this' = maxAttempts this
      \<and> errorThreshold this' = errorThreshold this \<and> backoffFactor this' = backoffFactor this
      \<and> initialDelay this' = initialDelay this \<and> onReflection this' = onReflection this
      \<and> logFile this' = logFile this \<and> errorListeners this' = errorListeners this)"

text \<open>
  The shapes a run can take, from a state with \<open>a\<close> attempts and the errors \<open>es\<close>
  and with \<^verbatim>\<open>errorLoop\<close> false: any number of failed attempts followed by their
  delay, and then one of six endings.
\<close>

definition failed_attempt :: "int \<Rightarrow> js_value \<Rightarrow> action list" where
  "failed_attempt k e =
     [Emit (BeforeAttempt k), CallTask, LoggerError (AttemptFailed k (message e) (stack e))]"

definition reflection_result :: "izanami \<Rightarrow> js_value list \<Rightarrow> action" where
  "reflection_result this es =
     (case onReflection this es of
        Resolves \<Rightarrow> Emit (Reflection es)
      | Rejects x \<Rightarrow> LoggerError (ReflectionFailed (message x) (stack x)))"

definition backoff :: "izanami \<Rightarrow> int \<Rightarrow> product" where
  "backoff this k = Times (initialDelay this) (Math_pow (backoffFactor this) (k - 1))"

datatype ending = Exhausted | Succeeded | Unhandled thrown | Reflected

inductive run_trace :: "izanami \<Rightarrow> int \<Rightarrow> js_value list \<Rightarrow> ending \<Rightarrow> action list \<Rightarrow> bool"
  for this :: izanami where
  Exhausted: "run_trace this a es Exhausted [Emit (Failure es)]"
| Succeeded:
    "run_trace this a es Succeeded [Emit (BeforeAttempt (a + 1)), CallTask, Emit (Success (a + 1))]"
| NullishTask:
    "run_trace this a es (Unhandled TypeError) [Emit (BeforeAttempt (a + 1)), CallTask]"
| Unhandled:
    "e \<noteq> Nullish \<Longrightarrow>
     run_trace this a es (Unhandled (ERR_UNHANDLED_ERROR (a + 1) e)) (failed_attempt (a + 1) e)"
| NullishReflection:
    "e \<noteq> Nullish \<Longrightarrow> onReflection this (es @ [e]) = Rejects Nullish \<Longrightarrow>
     run_trace this a es (Unhandled TypeError)
       (failed_attempt (a + 1) e
        @ [Emit (ErrorEvent (a + 1) e), CallOnReflection True (es @ [e])])"
| Reflected:
    "e \<noteq> Nullish \<Longrightarrow> onReflection this (es @ [e]) \<noteq> Rejects Nullish \<Longrightarrow>
     run_trace this a es Reflected
       (failed_attempt (a + 1) e
        @ [Emit (ErrorEvent (a + 1) e), CallOnReflection True (es @ [e]),
           reflection_result this (es @ [e]), Emit ReflectionExit])"
| Backoff:
    "e \<noteq> Nullish \<Longrightarrow> run_trace this (a + 1) (es @ [e]) en tr \<Longrightarrow>
     run_trace this a es en
       (failed_attempt (a + 1) e @ [Emit (ErrorEvent (a + 1) e), Sleep (backoff this (a + 1))] @ tr)"

text \<open>What the code after the loop adds.\<close>

definition exit_actions :: "flow \<Rightarrow> izanami \<Rightarrow> action list" where
  "exit_actions f this =
     (case f of
        Next \<Rightarrow> if errorLoop this then [Emit ReflectionExit] else [Emit (Failure (errors this))]
      | _ \<Rightarrow> [])"

definition ending_of :: "flow \<Rightarrow> izanami \<Rightarrow> ending" where
  "ending_of f this =
     (case f of
        Next \<Rightarrow> if errorLoop this then Reflected else Exhausted
      | Return \<Rightarrow> Succeeded
      | Throw x \<Rightarrow> Unhandled x)"

section \<open>Sample instances\<close>

text \<open>
  The instances of \<^verbatim>\<open>tests/IzanamiAlgorithm.test.js\<close>: a task that always resolves or
  always rejects with the same error, \<^verbatim>\<open>maxAttempts\<close> and \<^verbatim>\<open>errorThreshold\<close> given,
  the other options left to their defaults.
\<close>

definition testError :: js_value where
  "testError = Object (Some ''Test Error'') (Some ''Error: Test Error'')"

definition mockResolved :: task_fn where
  "mockResolved n = Resolves"

definition mockRejected :: task_fn where
  "mockRejected n = Rejects testError"

definition test_options :: "task_fn \<Rightarrow> int \<Rightarrow> int \<Rightarrow> options" where
  "test_options f m t =
     \<lparr> opt_task = Function f, opt_maxAttempts = Some m, opt_errorThreshold = Some t,
       opt_backoffFactor = None, opt_initialDelay = None, opt_onReflection = None,
       opt_logFile = Some ''./logs/test.log'' \<rparr>"

text \<open>The instance the constructor gives for such options, when both numbers are not 0.\<close>

definition test_instance :: "task_fn \<Rightarrow> int \<Rightarrow> int \<Rightarrow> izanami" where
  "test_instance f m t =
     \<lparr> task = f, maxAttempts = m, errorThreshold = t, backoffFactor = 2, initialDelay = 1000,
       onReflection = defaultReflection, logFile = ''./logs/test.log'',
       attempts = 0, errors = [], errorLoop = False, errorListeners = 0 \<rparr>"

text \<open>A reflection strategy that always rejects.\<close>

definition reflectionError :: js_value where
  "reflectionError = Object (Some ''Reflection Error'') (Some ''Error: Reflection Error'')"

definition failingReflection :: reflection_fn where
  "failingReflection errs = Rejects reflectionError"

text \<open>A reflection strategy that rejects with \<^verbatim>\<open>undefined\<close>.\<close>

definition nullishReflection :: reflection_fn where
  "nullishReflection errs = Rejects Nullish"

definition start :: world where
  "start = \<lparr> trace = [], calls = 0, observed = [] \<rparr>"

text \<open>
  \<^verbatim>\<open>new IzanamiAlgorithm(opts)\<close>, then \<^verbatim>\<open>on('error', ...)\<close> if \<open>listen\<close>, then
  \<^verbatim>\<open>runTask()\<close>.
\<close>

definition construct_and_run :: "bool \<Rightarrow> options \<Rightarrow> thrown + settled \<times> izanami \<times> world" where
  "construct_and_run listen opts =
     (case constructor (Some opts) of
        Inl x \<Rightarrow> Inl x
      | Inr this \<Rightarrow> Inr (runTask (if listen then on_error this else this) start))"

text \<open>What is looked at after such a run: how it settled, the run state, the calls, the trace.\<close>

definition summary ::
  "thrown + settled \<times> izanami \<times> world \<Rightarrow> thrown + settled \<times> run_state \<times> nat \<times> action list" where
  "summary res =
     (case res of
        Inl x \<Rightarrow> Inl x
      | Inr (r, this', w') \<Rightarrow> Inr (r, run_state this', calls w', trace w'))"

text \<open>
  The four actions of a failed attempt of the rejecting task when a listener is registered,
  and the delay that follows attempt \<open>k\<close> of a sample instance.
\<close>

definition failed_round :: "int \<Rightarrow> action list" where
  "failed_round k =
     [Emit (BeforeAttempt k), CallTask,
      LoggerError (AttemptFailed k (Some ''Test Error'') (Some ''Error: Test Error'')),
      Emit (ErrorEvent k testError)]"

definition test_delay :: "int \<Rightarrow> product" where
  "test_delay k = Times 1000 (Math_pow 2 (k - 1))"

section \<open>Construction\<close>

text \<open>
  C7. Construction throws, and gives no instance, exactly when the options are missing or
  \<^verbatim>\<open>options.task\<close> is not a function; what it throws is the error that asks for a
  valid task function. It gives an instance exactly when the options hold an invocable
  task.
\<close>

theorem constructor_throws_iff:
  "(\<exists>e. constructor options = Inl e) =
     (options = None \<or> (\<exists>opts. options = Some opts \<and> (\<forall>f. opt_task opts \<noteq> Function f)))
   \<and> (\<exists>e. constructor options = Inl e) =
     (constructor options = Inl (Error ''A valid task function must be provided.''))
   \<and> (\<exists>e. constructor options = Inl e) = (\<nexists>this. constructor options = Inr this)
   \<and> (\<exists>this. constructor options = Inr this) =
     (\<exists>opts f. options = Some opts \<and> opt_task opts = Function f)"
  by (auto simp: constructor_def split: option.splits js_task.splits)

text \<open>
  C2. An \<^verbatim>\<open>initialDelay\<close> of 0 is not kept: \<^verbatim>\<open>options.initialDelay || 1000\<close> takes
  0 for a missing option, and the instance gets the default of 1000.
\<close>

theorem zero_initialDelay_gives_default:
  "map_sum id initialDelay
     (constructor (Some ((test_options mockResolved 3 2)\<lparr>opt_initialDelay := Some 0\<rparr>))) = Inr 1000"
  by (simp add: constructor_def test_options_def or_default_def)

text \<open>In general the delay is the option when it is given and not 0, and 1000 otherwise.\<close>

lemma constructor_initialDelay:
  "constructor (Some opts) = Inr this \<Longrightarrow>
     initialDelay this =
       (case opt_initialDelay opts of None \<Rightarrow> 1000 | Some d \<Rightarrow> if d = 0 then 1000 else d)"
  by (auto simp: constructor_def or_default_def split: js_task.splits option.splits)

text \<open>A new instance has a fresh run state and no listener.\<close>

lemma constructor_fresh:
  "constructor options = Inr this \<Longrightarrow> run_state this = (0, [], False) \<and> errorListeners this = 0"
  by (auto simp: constructor_def run_state_def split: option.splits js_task.splits)

section \<open>Basic facts\<close>

lemma perform_simps [simp]:
  "trace (perform a this w) = trace w @ [a]"
  "calls (perform a this w) = calls w"
  "observed (perform a this w) = observed w @ [run_state this]"
  by (simp_all add: perform_def)

lemma emit_simps [simp]:
  "trace (emit ev this w) = trace w @ [Emit ev]"
  "calls (emit ev this w) = calls w"
  "observed (emit ev this w) = observed w @ [run_state this]"
  by (simp_all add: emit_def)

lemma sleep_simps [simp]:
  "trace (sleep d this w) = trace w @ [Sleep d]"
  "calls (sleep d this w) = calls w"
  "observed (sleep d this w) = observed w @ [run_state this]"
  by (simp_all add: sleep_def)

lemma new_trace_append [simp]: "trace w' = trace w @ tr \<Longrightarrow> new_trace w w' = tr"
  by (simp add: new_trace_def)

lemma new_observed_append [simp]: "observed w' = observed w @ os \<Longrightarrow> new_observed w w' = os"
  by (simp add: new_observed_def)

lemma same_config_refl [simp]: "same_config this this"
  by (simp add: same_config_def)

lemma same_config_trans: "same_config a b \<Longrightarrow> same_config b c \<Longrightarrow> same_config a c"
  by (simp add: same_config_def)

lemma iteration_same_config:
  "iteration this w = (f, this', w') \<Longrightarrow> same_config this this'"
  by (auto simp: iteration_def enterReflectionPhase_def Let_def same_config_def
           split: outcome.splits sum.splits if_splits option.splits prod.splits)

lemma iteration_Resolves:
  assumes "task this (calls w) = Resolves"
  shows "iteration this w =
           (Return, this\<lparr>attempts := attempts this + 1\<rparr>,
            w\<lparr>trace := trace w @ [Emit (BeforeAttempt (attempts this + 1)), CallTask,
                                   Emit (Success (attempts this + 1))],
              calls := Suc (calls w),
              observed := observed w @ replicate 3 (attempts this + 1, errors this, errorLoop this)\<rparr>)"
  using assms
  by (simp add: iteration_def Let_def emit_def perform_def run_state_def numeral_3_eq_3)

text \<open>Unfolding these evaluates a run of a sample instance.\<close>

lemmas eval_defs = runTask_def run_loop.simps iteration_def on_error_def
     emit_def emit_error_def perform_def start_def Let_def sleep_def testError_def
     mockRejected_def mockResolved_def run_state_def enterReflectionPhase_def reset_def
     defaultReflection_def test_instance_def failingReflection_def reflectionError_def
     nullishReflection_def test_delay_def

lemma constructor_test_options:
  "m \<noteq> 0 \<Longrightarrow> t \<noteq> 0 \<Longrightarrow> constructor (Some (test_options f m t)) = Inr (test_instance f m t)"
  by (simp add: constructor_def test_options_def test_instance_def or_default_def
        or_default_string_def)

section \<open>A task that always succeeds\<close>

text \<open>
  C4. From a fresh run state and with a task that resolves on every invocation, the run
  calls the task once, publishes \<^verbatim>\<open>beforeAttempt\<close> and then \<^verbatim>\<open>success\<close>, both with
  attempt number 1, gives nothing to the logger, and ends with the run state as the attempt
  left it (\<^verbatim>\<open>attempts\<close> is 1: no reset).
\<close>

theorem always_succeeding_task:
  assumes "run_state this = (0, [], False)"
    and "0 < maxAttempts this"
    and "\<forall>n. task this n = Resolves"
  shows "runTask this w =
           (Fulfilled, this\<lparr>attempts := 1\<rparr>,
            w\<lparr>trace := trace w @ [Emit (BeforeAttempt 1), CallTask, Emit (Success 1)],
              calls := Suc (calls w),
              observed := observed w @ replicate 3 (1, [], False)\<rparr>)"
proof -
  from assms(1) have st: "attempts this = 0" "errors this = []" "\<not> errorLoop this"
    by (simp_all add: run_state_def)
  from assms(3) have "task this (calls w) = Resolves"
    by simp
  from iteration_Resolves [OF this] st assms(2) show ?thesis
    by (simp add: runTask_def run_loop.simps)
qed

theorem always_succeeding_task_witness:
  "constructor (Some (test_options mockResolved 3 2)) = Inr (test_instance mockResolved 3 2)
   \<and> run_state (test_instance mockResolved 3 2) = (0, [], False)
   \<and> 0 < maxAttempts (test_instance mockResolved 3 2)
   \<and> (\<forall>n. task (test_instance mockResolved 3 2) n = Resolves)
   \<and> runTask (test_instance mockResolved 3 2) start =
       (Fulfilled, (test_instance mockResolved 3 2)\<lparr>attempts := 1\<rparr>,
        \<lparr> trace = [Emit (BeforeAttempt 1), CallTask, Emit (Success 1)], calls = 1,
          observed = [(1, [], False), (1, [], False), (1, [], False)] \<rparr>)"
proof -
  have h: "run_state (test_instance mockResolved 3 2) = (0, [], False)"
    "0 < maxAttempts (test_instance mockResolved 3 2)"
    "\<forall>n. task (test_instance mockResolved 3 2) n = Resolves"
    by (simp_all add: test_instance_def run_state_def mockResolved_def)
  from always_succeeding_task [OF h, of start] h constructor_test_options [of 3 2 mockResolved]
  show ?thesis
    by (simp add: start_def numeral_3_eq_3)
qed

section \<open>The invariant of the run state\<close>

lemma iteration_inv:
  assumes "attempts this < maxAttempts this"
    and "runstate_inv (maxAttempts this) (run_state this)"
    and "iteration this w = (f, this', w')"
  shows "runstate_inv (maxAttempts this) (run_state this')
         \<and> (\<exists>os. observed w' = observed w @ os \<and> (\<forall>s \<in> set os. runstate_inv (maxAttempts this) s))"
  using assms
  by (auto simp: iteration_def enterReflectionPhase_def Let_def runstate_inv_def run_state_def
                 emit_error_def
           split: outcome.splits sum.splits if_splits option.splits prod.splits)

lemma run_loop_inv:
  "runstate_inv (maxAttempts this) (run_state this) \<Longrightarrow> run_loop this w = (f, this', w') \<Longrightarrow>
     same_config this this' \<and> runstate_inv (maxAttempts this) (run_state this')
     \<and> (\<exists>os. observed w' = observed w @ os \<and> (\<forall>s \<in> set os. runstate_inv (maxAttempts this) s))"
proof (induction this w arbitrary: f this' w' rule: run_loop.induct)
  case (1 this w)
  show ?case
  proof (cases "attempts this < maxAttempts this \<and> \<not> errorLoop this")
    case False
    with "1.prems" show ?thesis
      by (simp add: run_loop.simps)
  next
    case True
    obtain g this1 w1 where it: "iteration this w = (g, this1, w1)"
      by (cases "iteration this w") auto
    from iteration_same_config [OF it] have cfg: "same_config this this1" .
    then have mx: "maxAttempts this1 = maxAttempts this"
      by (simp add: same_config_def)
    from iteration_inv [OF _ "1.prems"(1) it] True
    obtain os where os: "runstate_inv (maxAttempts this) (run_state this1)"
      "observed w1 = observed w @ os" "\<forall>s \<in> set os. runstate_inv (maxAttempts this) s"
      by auto
    show ?thesis
    proof (cases g)
      case Next
      with True it "1.prems"(2) have rl: "run_loop this1 w1 = (f, this', w')"
        by (simp add: run_loop.simps)
      from "1.IH" [OF True it [symmetric] Next refl _ rl] os(1) mx
      obtain os' where "same_config this1 this'" "runstate_inv (maxAttempts this) (run_state this')"
        "observed w' = observed w1 @ os'" "\<forall>s \<in> set os'. runstate_inv (maxAttempts this) s"
        by auto
      with os cfg show ?thesis
        by (auto intro: same_config_trans)
    next
      case Return
      with True it "1.prems"(2) have "f = Return \<and> this' = this1 \<and> w' = w1"
        by (simp add: run_loop.simps)
      with os cfg show ?thesis by auto
    next
      case (Throw x)
      with True it "1.prems"(2) have "f = Throw x \<and> this' = this1 \<and> w' = w1"
        by (simp add: run_loop.simps)
      with os cfg show ?thesis by auto
    qed
  qed
qed

lemma runTask_inv:
  assumes "runstate_inv (maxAttempts this) (run_state this)"
    and "runTask this w = (r, this', w')"
  shows "maxAttempts this' = maxAttempts this
         \<and> runstate_inv (maxAttempts this) (run_state this')
         \<and> (\<forall>s \<in> set (new_observed w w'). runstate_inv (maxAttempts this) s)"
proof -
  obtain f this1 w1 where rl: "run_loop this w = (f, this1, w1)"
    by (cases "run_loop this w") auto
  from run_loop_inv [OF assms(1) rl]
  obtain os where os: "same_config this this1" "runstate_inv (maxAttempts this) (run_state this1)"
    "observed w1 = observed w @ os" "\<forall>s \<in> set os. runstate_inv (maxAttempts this) s"
    by auto
  have mx: "0 \<le> maxAttempts this"
    using assms(1) by (auto simp: runstate_inv_def run_state_def)
  from assms(2) rl os mx show ?thesis
    by (cases f)
       (auto simp: runTask_def Let_def same_config_def reset_def runstate_inv_def run_state_def
             split: if_splits)
qed

text \<open>
  C9. The run state of a new instance satisfies the invariant (\<^verbatim>\<open>attempts\<close> at most
  \<^verbatim>\<open>maxAttempts\<close>, at most as many errors as attempts) when \<^verbatim>\<open>maxAttempts\<close> is not
  negative. A run that starts in a state satisfying it keeps it: it holds in the run state
  in which each action of the run happens, and in the state the run leaves.
\<close>

theorem runstate_invariant:
  "(constructor options = Inr this0 \<and> 0 \<le> maxAttempts this0 \<longrightarrow>
      runstate_inv (maxAttempts this0) (run_state this0))
   \<and> (runstate_inv (maxAttempts this) (run_state this) \<and> runTask this w = (r, this', w') \<longrightarrow>
        maxAttempts this' = maxAttempts this
        \<and> runstate_inv (maxAttempts this) (run_state this')
        \<and> (\<forall>s \<in> set (new_observed w w'). runstate_inv (maxAttempts this) s))"
proof -
  have "runstate_inv (maxAttempts this0) (run_state this0)"
    if "constructor options = Inr this0" "0 \<le> maxAttempts this0"
    using that
    by (auto simp: constructor_def runstate_inv_def run_state_def split: option.splits js_task.splits)
  with runTask_inv [of this w r this' w'] show ?thesis
    by blast
qed

theorem runstate_invariant_witness:
  "constructor (Some (test_options mockRejected 5 2)) = Inr (test_instance mockRejected 5 2)
   \<and> 0 \<le> maxAttempts (test_instance mockRejected 5 2)
   \<and> runstate_inv 5 (run_state (test_instance mockRejected 5 2))
   \<and> runstate_inv 5 (run_state (on_error (test_instance mockRejected 5 2)))
   \<and> runstate_inv 5 (run_state (fst (snd (runTask (on_error (test_instance mockRejected 5 2)) start))))
   \<and> list_all (runstate_inv 5)
        (new_observed start (snd (snd (runTask (on_error (test_instance mockRejected 5 2)) start))))
   \<and> length (new_observed start (snd (snd (runTask (on_error (test_instance mockRejected 5 2)) start)))) = 12"
proof -
  let ?i0 = "test_instance mockRejected 5 2"
  let ?i1 = "on_error ?i0"
  obtain r this' w' where run: "runTask ?i1 start = (r, this', w')"
    by (cases "runTask ?i1 start") auto
  have c: "constructor (Some (test_options mockRejected 5 2)) = Inr ?i0"
    by (simp add: constructor_test_options)
  have m: "maxAttempts ?i0 = 5" "maxAttempts ?i1 = 5"
    by (simp_all add: test_instance_def on_error_def)
  have i: "runstate_inv (maxAttempts ?i1) (run_state ?i1)"
    by (simp add: runstate_inv_def run_state_def test_instance_def on_error_def)
  have n: "length (new_observed start w') = 12"
    using run by (auto simp: eval_defs new_observed_def)
  from runstate_invariant [of "Some (test_options mockRejected 5 2)" ?i0 ?i1 start r this' w']
    c m i run n
  show ?thesis
    by (simp add: list_all_iff)
qed

section \<open>One pass through the loop\<close>

text \<open>What a failed attempt does, case by case.\<close>

lemma iteration_nullish:
  assumes "task this (calls w) = Rejects Nullish"
  shows "\<exists>w1. iteration this w
                 = (Throw TypeError,
                    this\<lparr>attempts := attempts this + 1, errors := errors this @ [Nullish]\<rparr>, w1)
              \<and> trace w1 = trace w @ [Emit (BeforeAttempt (attempts this + 1)), CallTask]
              \<and> calls w1 = Suc (calls w)"
  using assms
  by (simp add: iteration_def Let_def perform_def emit_def)

lemma iteration_unhandled:
  assumes "task this (calls w) = Rejects e"
    and "e \<noteq> Nullish"
    and "errorListeners this = 0"
  shows "\<exists>w1. iteration this w
                 = (Throw (ERR_UNHANDLED_ERROR (attempts this + 1) e),
                    this\<lparr>attempts := attempts this + 1, errors := errors this @ [e]\<rparr>, w1)
              \<and> trace w1 = trace w @ failed_attempt (attempts this + 1) e
              \<and> calls w1 = Suc (calls w)"
  using assms
  by (simp add: iteration_def Let_def emit_error_def failed_attempt_def perform_def emit_def)

lemma iteration_backoff:
  assumes "task this (calls w) = Rejects e"
    and "e \<noteq> Nullish"
    and "errorListeners this \<noteq> 0"
    and "int (length (errors this)) + 1 < errorThreshold this"
  shows "\<exists>w1. iteration this w
                 = (Next, this\<lparr>attempts := attempts this + 1, errors := errors this @ [e]\<rparr>, w1)
              \<and> trace w1 = trace w @ failed_attempt (attempts this + 1) e
                    @ [Emit (ErrorEvent (attempts this + 1) e), Sleep (backoff this (attempts this + 1))]
              \<and> calls w1 = Suc (calls w)
              \<and> observed w1 = observed w
                    @ replicate 2 (attempts this + 1, errors this, errorLoop this)
                    @ replicate 3 (attempts this + 1, errors this @ [e], errorLoop this)"
  using assms
  by (simp add: iteration_def Let_def emit_error_def failed_attempt_def backoff_def run_state_def
        perform_def emit_def sleep_def numeral_2_eq_2 numeral_3_eq_3)

lemma iteration_reflect:
  assumes "task this (calls w) = Rejects e"
    and "e \<noteq> Nullish"
    and "errorListeners this \<noteq> 0"
    and "errorThreshold this \<le> int (length (errors this)) + 1"
    and "onReflection this (errors this @ [e]) \<noteq> Rejects Nullish"
  shows "\<exists>w1. iteration this w
                 = (Next, this\<lparr>attempts := attempts this + 1, errors := errors this @ [e],
                                errorLoop := True\<rparr>, w1)
              \<and> trace w1 = trace w @ failed_attempt (attempts this + 1) e
                    @ [Emit (ErrorEvent (attempts this + 1) e),
                       CallOnReflection True (errors this @ [e]),
                       reflection_result this (errors this @ [e])]
              \<and> calls w1 = Suc (calls w)
              \<and> last (observed w1) = (attempts this + 1, errors this @ [e], True)"
  using assms
  by (auto simp: iteration_def Let_def emit_error_def failed_attempt_def run_state_def
        enterReflectionPhase_def reflection_result_def perform_def emit_def split: outcome.splits)

lemma iteration_nullish_reflection:
  assumes "task this (calls w) = Rejects e"
    and "e \<noteq> Nullish"
    and "errorListeners this \<noteq> 0"
    and "errorThreshold this \<le> int (length (errors this)) + 1"
    and "onReflection this (errors this @ [e]) = Rejects Nullish"
  shows "\<exists>w1. iteration this w
                 = (Throw TypeError,
                    this\<lparr>attempts := attempts this + 1, errors := errors this @ [e],
                         errorLoop := True\<rparr>, w1)
              \<and> trace w1 = trace w @ failed_attempt (attempts this + 1) e
                    @ [Emit (ErrorEvent (attempts this + 1) e),
                       CallOnReflection True (errors this @ [e])]
              \<and> calls w1 = Suc (calls w)"
  using assms
  by (auto simp: iteration_def Let_def emit_error_def failed_attempt_def run_state_def
        enterReflectionPhase_def perform_def emit_def)

section \<open>The shape of a run\<close>

lemma run_trace_same_config:
  "run_trace this1 a es en tr \<Longrightarrow> same_config this this1 \<Longrightarrow> run_trace this a es en tr"
proof (induction rule: run_trace.induct)
  case (NullishReflection e es a)
  then have "onReflection this (es @ [e]) = Rejects Nullish"
    by (simp add: same_config_def)
  with NullishReflection show ?case
    by (simp add: run_trace.NullishReflection)
next
  case (Reflected e es a)
  then have "reflection_result this1 (es @ [e]) = reflection_result this (es @ [e])"
    "onReflection this (es @ [e]) \<noteq> Rejects Nullish"
    by (simp_all add: reflection_result_def same_config_def)
  with Reflected show ?case
    using run_trace.Reflected [of e this es a] by simp
next
  case (Backoff e a es en tr)
  then have "backoff this1 (a + 1) = backoff this (a + 1)"
    by (simp add: backoff_def same_config_def)
  with Backoff show ?case
    using run_trace.Backoff [of e this a es en tr] by simp
qed (auto intro: run_trace.intros)

lemma run_loop_trace:
  "run_loop this w = (f, this', w') \<Longrightarrow> \<not> errorLoop this \<Longrightarrow>
     \<exists>tr. trace w' = trace w @ tr
        \<and> run_trace this (attempts this) (errors this) (ending_of f this') (tr @ exit_actions f this')"
proof (induction this w arbitrary: f this' w' rule: run_loop.induct)
  case (1 this w)
  show ?case
  proof (cases "attempts this < maxAttempts this")
    case False
    with "1.prems" have "f = Next" "this' = this" "w' = w"
      by (simp_all add: run_loop.simps)
    with "1.prems"(2) show ?thesis
      by (simp add: exit_actions_def ending_of_def run_trace.Exhausted)
  next
    case True
    with "1.prems"(2) have guard: "attempts this < maxAttempts this \<and> \<not> errorLoop this"
      by simp
    let ?k = "attempts this + 1"
    show ?thesis
    proof (cases "task this (calls w)")
      case Resolves
      from iteration_Resolves [OF this] guard "1.prems"(1)
      have "f = Return" "trace w' = trace w @ [Emit (BeforeAttempt ?k), CallTask, Emit (Success ?k)]"
        by (auto simp: run_loop.simps)
      then show ?thesis
        by (simp add: exit_actions_def ending_of_def run_trace.Succeeded)
    next
      case (Rejects e)
      show ?thesis
      proof (cases "e = Nullish")
        case True
        with Rejects iteration_nullish [of this w] guard "1.prems"(1)
        have "f = Throw TypeError" "trace w' = trace w @ [Emit (BeforeAttempt ?k), CallTask]"
          by (auto simp: run_loop.simps)
        then show ?thesis
          by (simp add: exit_actions_def ending_of_def run_trace.NullishTask)
      next
        case False
        note nonnull = this
        show ?thesis
        proof (cases "errorListeners this = 0")
          case True
          from iteration_unhandled [OF Rejects nonnull True] guard "1.prems"(1)
          have "f = Throw (ERR_UNHANDLED_ERROR ?k e)" "trace w' = trace w @ failed_attempt ?k e"
            by (auto simp: run_loop.simps)
          then show ?thesis
            by (simp add: exit_actions_def ending_of_def run_trace.Unhandled [OF nonnull])
        next
          case False
          note listener = this
          show ?thesis
          proof (cases "errorThreshold this \<le> int (length (errors this)) + 1")
            case True
            note reached = this
            show ?thesis
            proof (cases "onReflection this (errors this @ [e]) = Rejects Nullish")
              case True
              from iteration_nullish_reflection [OF Rejects nonnull listener reached True]
                guard "1.prems"(1)
              have "f = Throw TypeError"
                "trace w' = trace w @ failed_attempt ?k e
                   @ [Emit (ErrorEvent ?k e), CallOnReflection True (errors this @ [e])]"
                by (auto simp: run_loop.simps)
              then show ?thesis
                using run_trace.NullishReflection [OF nonnull True, of "attempts this"]
                by (simp add: exit_actions_def ending_of_def)
            next
              case False
              from iteration_reflect [OF Rejects nonnull listener reached False] obtain w1
                where it: "iteration this w
                     = (Next, this\<lparr>attempts := ?k, errors := errors this @ [e], errorLoop := True\<rparr>, w1)"
                  and tr1: "trace w1 = trace w @ failed_attempt ?k e
                     @ [Emit (ErrorEvent ?k e), CallOnReflection True (errors this @ [e]),
                        reflection_result this (errors this @ [e])]"
                by auto
              have "run_loop (this\<lparr>attempts := ?k, errors := errors this @ [e], errorLoop := True\<rparr>) w1
                      = (Next, this\<lparr>attempts := ?k, errors := errors this @ [e], errorLoop := True\<rparr>, w1)"
                by (simp add: run_loop.simps)
              with it guard "1.prems"(1)
              have "f = Next" "errorLoop this'" "w' = w1"
                by (auto simp: run_loop.simps)
              with tr1 show ?thesis
                using run_trace.Reflected [OF nonnull False, of "attempts this"]
                by (simp add: exit_actions_def ending_of_def)
            qed
          next
            case False
            then have below: "int (length (errors this)) + 1 < errorThreshold this"
              by simp
            define this1 where "this1 = this\<lparr>attempts := ?k, errors := errors this @ [e]\<rparr>"
            from iteration_backoff [OF Rejects nonnull listener below] obtain w1
              where it: "iteration this w = (Next, this1, w1)"
                and tr1: "trace w1 = trace w @ failed_attempt ?k e
                            @ [Emit (ErrorEvent ?k e), Sleep (backoff this ?k)]"
              by (auto simp: this1_def)
            with guard "1.prems"(1) have rl: "run_loop this1 w1 = (f, this', w')"
              by (simp add: run_loop.simps)
            have nl: "\<not> errorLoop this1"
              using guard by (simp add: this1_def)
            from "1.IH" [OF guard it [symmetric] refl refl rl nl]
            obtain tr where tr: "trace w' = trace w1 @ tr"
              "run_trace this1 (attempts this1) (errors this1) (ending_of f this') (tr @ exit_actions f this')"
              by auto
            have cfg: "same_config this this1"
              by (simp add: same_config_def this1_def)
            from run_trace_same_config [OF tr(2) cfg]
            have "run_trace this ?k (errors this @ [e]) (ending_of f this') (tr @ exit_actions f this')"
              by (simp add: this1_def)
            from run_trace.Backoff [OF nonnull this]
            have "run_trace this (attempts this) (errors this) (ending_of f this')
                    ((failed_attempt ?k e @ [Emit (ErrorEvent ?k e), Sleep (backoff this ?k)] @ tr)
                     @ exit_actions f this')"
              by simp
            moreover have "trace w' = trace w @ failed_attempt ?k e
                             @ [Emit (ErrorEvent ?k e), Sleep (backoff this ?k)] @ tr"
              using tr(1) tr1 by simp
            ultimately show ?thesis
              by auto
          qed
        qed
      qed
    qed
  qed
qed

lemma runTask_trace:
  assumes "runTask this w = (r, this', w')" and "\<not> errorLoop this"
  shows "\<exists>en. run_trace this (attempts this) (errors this) en (new_trace w w')
           \<and> (case en of
                 Exhausted \<Rightarrow> r = Fulfilled \<and> \<not> errorLoop this'
               | Succeeded \<Rightarrow> r = Fulfilled
               | Unhandled x \<Rightarrow> r = Rejected x
               | Reflected \<Rightarrow> r = Fulfilled \<and> run_state this' = (0, [], False)
                              \<and> snd (snd (last (observed w'))))"
proof -
  obtain f this1 w1 where rl: "run_loop this w = (f, this1, w1)"
    by (cases "run_loop this w") auto
  from run_loop_trace [OF rl assms(2)] obtain tr where tr: "trace w1 = trace w @ tr"
    "run_trace this (attempts this) (errors this) (ending_of f this1) (tr @ exit_actions f this1)"
    by auto
  from assms(1) rl tr(1) have "trace w' = trace w @ tr @ exit_actions f this1"
    by (cases f) (auto simp: runTask_def exit_actions_def Let_def split: if_splits)
  then have nt: "new_trace w w' = tr @ exit_actions f this1"
    by simp
  from assms(1) rl
  have "case ending_of f this1 of
          Exhausted \<Rightarrow> r = Fulfilled \<and> \<not> errorLoop this'
        | Succeeded \<Rightarrow> r = Fulfilled
        | Unhandled x \<Rightarrow> r = Rejected x
        | Reflected \<Rightarrow> r = Fulfilled \<and> run_state this' = (0, [], False)
                       \<and> snd (snd (last (observed w')))"
    by (cases f)
       (auto simp: runTask_def ending_of_def Let_def reset_def run_state_def split: if_splits)
  with tr(2) nt show ?thesis
    by auto
qed

text \<open>Where the actions of a run stand in such a shape.\<close>

lemma run_trace_reflection:
  "run_trace this a es en tr \<Longrightarrow> CallOnReflection b es' \<in> set tr \<Longrightarrow>
     b \<and> (if onReflection this es' = Rejects Nullish
          then en = Unhandled TypeError \<and> (\<exists>pre. tr = pre @ [CallOnReflection True es'])
          else en = Reflected
               \<and> (\<exists>pre. tr = pre @ [CallOnReflection True es', reflection_result this es',
                                    Emit ReflectionExit]
                        \<and> (\<forall>x. Emit (Reflection x) \<notin> set pre)))"
proof (induction rule: run_trace.induct)
  case (Backoff e a es en tr)
  let ?seg = "failed_attempt (a + 1) e @ [Emit (ErrorEvent (a + 1) e), Sleep (backoff this (a + 1))]"
  from Backoff.prems have mem: "CallOnReflection b es' \<in> set tr"
    by (simp add: failed_attempt_def)
  note ih = Backoff.IH [OF mem]
  show ?case
  proof (cases "onReflection this es' = Rejects Nullish")
    case True
    with ih obtain pre where "b" "en = Unhandled TypeError" "tr = pre @ [CallOnReflection True es']"
      by auto
    then have "b" "en = Unhandled TypeError" "?seg @ tr = (?seg @ pre) @ [CallOnReflection True es']"
      by simp_all
    with True show ?thesis
      by (metis append.assoc)
  next
    case False
    with ih obtain pre where pre: "b" "en = Reflected"
      "tr = pre @ [CallOnReflection True es', reflection_result this es', Emit ReflectionExit]"
      "\<forall>x. Emit (Reflection x) \<notin> set pre"
      by auto
    have "?seg @ tr = (?seg @ pre)
            @ [CallOnReflection True es', reflection_result this es', Emit ReflectionExit]"
      using pre(3) by simp
    moreover have "\<forall>x. Emit (Reflection x) \<notin> set (?seg @ pre)"
      using pre(4) by (simp add: failed_attempt_def)
    ultimately show ?thesis
      using pre(1,2) False by (metis append.assoc)
  qed
next
  case (NullishReflection e es a)
  then have "b" "es' = es @ [e]"
    by (auto simp: failed_attempt_def)
  with NullishReflection(2) show ?case
    by (auto intro!: exI [of _ "failed_attempt (a + 1) e @ [Emit (ErrorEvent (a + 1) e)]"])
next
  case (Reflected e es a)
  then have "b" "es' = es @ [e]"
    by (auto simp: failed_attempt_def reflection_result_def split: outcome.splits)
  with Reflected(2) show ?case
    by (auto simp: failed_attempt_def
             intro!: exI [of _ "failed_attempt (a + 1) e @ [Emit (ErrorEvent (a + 1) e)]"])
qed (auto simp: failed_attempt_def)





section \<open>The delays\<close>



section \<open>With a listener for the error notification\<close>

text \<open>
  When a listener is registered for \<^verbatim>\<open>'error'\<close>, the only exception that leaves the
  loop is the \<^verbatim>\<open>TypeError\<close> of reading the message of \<^verbatim>\<open>null\<close> or
  \<^verbatim>\<open>undefined\<close>, and it needs a task or a strategy that rejects with such a value.
  With a listener and without such rejections \<^verbatim>\<open>runTask\<close> is fulfilled.
\<close>

lemma iteration_listener:
  assumes "iteration this w = (Throw x, this', w')" and "errorListeners this \<noteq> 0"
  shows "x = TypeError
         \<and> ((\<exists>n. task this n = Rejects Nullish) \<or> (\<exists>es. onReflection this es = Rejects Nullish))"
  using assms
  by (auto simp: iteration_def Let_def emit_error_def enterReflectionPhase_def
           split: outcome.splits if_splits option.splits prod.splits)

lemma run_loop_listener:
  "run_loop this w = (Throw x, this', w') \<Longrightarrow> errorListeners this \<noteq> 0 \<Longrightarrow>
     x = TypeError
     \<and> ((\<exists>n. task this n = Rejects Nullish) \<or> (\<exists>es. onReflection this es = Rejects Nullish))"
proof (induction this w arbitrary: this' w' rule: run_loop.induct)
  case (1 this w)
  show ?case
  proof (cases "attempts this < maxAttempts this \<and> \<not> errorLoop this")
    case False
    with "1.prems" show ?thesis
      by (simp add: run_loop.simps)
  next
    case True
    obtain g this1 w1 where it: "iteration this w = (g, this1, w1)"
      by (cases "iteration this w") auto
    from iteration_same_config [OF it] have cfg: "same_config this this1" .
    show ?thesis
    proof (cases g)
      case Next
      with True it "1.prems"(1) have "run_loop this1 w1 = (Throw x, this', w')"
        by (simp add: run_loop.simps)
      from "1.IH" [OF True it [symmetric] Next refl this] cfg "1.prems"(2) show ?thesis
        by (simp add: same_config_def)
    next
      case Return
      with True it "1.prems"(1) show ?thesis
        by (simp add: run_loop.simps)
    next
      case (Throw y)
      with True it "1.prems"(1) have "y = x"
        by (simp add: run_loop.simps)
      with it Throw iteration_listener [OF _ "1.prems"(2)] show ?thesis
        by simp
    qed
  qed
qed

lemma runTask_listener:
  assumes "errorListeners this \<noteq> 0"
    and "\<forall>n. task this n \<noteq> Rejects Nullish"
    and "\<forall>es. onReflection this es \<noteq> Rejects Nullish"
  shows "fst (runTask this w) = Fulfilled"
proof -
  obtain f this1 w1 where rl: "run_loop this w = (f, this1, w1)"
    by (cases "run_loop this w") auto
  have "f \<noteq> Throw x" for x
    using run_loop_listener [of this w x this1 w1] rl assms by auto
  with rl show ?thesis
    by (cases f) (auto simp: runTask_def Let_def)
qed

text \<open>
  Whatever the instance, \<^verbatim>\<open>runTask\<close> is rejected only with that \<^verbatim>\<open>TypeError\<close> or
  with the unhandled error notification of a failed attempt.
\<close>

lemma run_trace_unhandled:
  "run_trace this a es en tr \<Longrightarrow> en = Unhandled x \<Longrightarrow>
     x = TypeError \<or> (\<exists>k e. x = ERR_UNHANDLED_ERROR k e)"
  by (induction rule: run_trace.induct) auto

lemma runTask_rejected:
  assumes "runTask this w = (Rejected x, this', w')"
  shows "x = TypeError \<or> (errorListeners this = 0 \<and> (\<exists>k e. x = ERR_UNHANDLED_ERROR k e))"
proof -
  have nl: "\<not> errorLoop this"
  proof
    assume "errorLoop this"
    then have "run_loop this w = (Next, this, w)"
      by (simp add: run_loop.simps)
    with assms \<open>errorLoop this\<close> show False
      by (simp add: runTask_def Let_def)
  qed
  obtain f this1 w1 where rl: "run_loop this w = (f, this1, w1)"
    by (cases "run_loop this w") auto
  with assms have f: "f = Throw x"
    by (cases f) (auto simp: runTask_def Let_def split: if_splits)
  from runTask_trace [OF assms nl] obtain en
    where en: "run_trace this (attempts this) (errors this) en (new_trace w w')"
      and out: "case en of
                 Exhausted \<Rightarrow> Rejected x = Fulfilled \<and> \<not> errorLoop this'
               | Succeeded \<Rightarrow> Rejected x = Fulfilled
               | Unhandled y \<Rightarrow> Rejected x = Rejected y
               | Reflected \<Rightarrow> Rejected x = Fulfilled \<and> run_state this' = (0, [], False)
                              \<and> snd (snd (last (observed w')))"
    by auto
  from out have "en = Unhandled x"
    by (cases en) auto
  from run_trace_unhandled [OF en this]
  have shape: "x = TypeError \<or> (\<exists>k e. x = ERR_UNHANDLED_ERROR k e)" .
  show ?thesis
  proof (cases "errorListeners this = 0")
    case True
    with shape show ?thesis by simp
  next
    case False
    from run_loop_listener [OF _ False] rl f show ?thesis
      by simp
  qed
qed

section \<open>A task that always fails\<close>

text \<open>
  From a fresh run state, with a listener and a task that rejects every time with a value
  other than \<^verbatim>\<open>null\<close> and \<^verbatim>\<open>undefined\<close>, when the threshold is above
  \<^verbatim>\<open>maxAttempts\<close>: the task is called \<^verbatim>\<open>maxAttempts\<close> times, \<^verbatim>\<open>errorLoop\<close> is false
  in every state of the run, and the run ends with the delay of the last attempt and the
  \<^verbatim>\<open>failure\<close> notification, which carries \<^verbatim>\<open>maxAttempts\<close> errors. The run state is
  left as the last attempt left it.
\<close>

lemma run_loop_exhausts:
  "run_loop this w = (f, this', w') \<Longrightarrow>
   \<forall>n. task this n \<noteq> Resolves \<and> task this n \<noteq> Rejects Nullish \<Longrightarrow>
   errorListeners this \<noteq> 0 \<Longrightarrow> \<not> errorLoop this \<Longrightarrow> attempts this \<le> maxAttempts this \<Longrightarrow>
   int (length (errors this)) + (maxAttempts this - attempts this) < errorThreshold this \<Longrightarrow>
     f = Next \<and> attempts this' = maxAttempts this \<and> \<not> errorLoop this'
     \<and> int (length (errors this')) = int (length (errors this)) + (maxAttempts this - attempts this)
     \<and> calls w' = calls w + nat (maxAttempts this - attempts this)
     \<and> (\<exists>os. observed w' = observed w @ os \<and> (\<forall>s \<in> set os. \<not> snd (snd s)))
     \<and> (attempts this < maxAttempts this \<longrightarrow>
          (\<exists>pre. trace w' = trace w @ pre @ [Sleep (backoff this (maxAttempts this))]))"
proof (induction this w arbitrary: f this' w' rule: run_loop.induct)
  case (1 this w)
  show ?case
  proof (cases "attempts this < maxAttempts this")
    case False
    with "1.prems" show ?thesis
      by (simp add: run_loop.simps)
  next
    case True
    with "1.prems"(4) have guard: "attempts this < maxAttempts this \<and> \<not> errorLoop this"
      by simp
    from "1.prems"(2) obtain e where e: "task this (calls w) = Rejects e" "e \<noteq> Nullish"
      by (metis outcome.exhaust)
    let ?k = "attempts this + 1"
    define this1 where "this1 = this\<lparr>attempts := ?k, errors := errors this @ [e]\<rparr>"
    from True "1.prems"(6) have below: "int (length (errors this)) + 1 < errorThreshold this"
      by simp
    from iteration_backoff [OF e "1.prems"(3) below] obtain w1
      where it: "iteration this w = (Next, this1, w1)"
        and tr1: "trace w1 = trace w @ failed_attempt ?k e
                    @ [Emit (ErrorEvent ?k e), Sleep (backoff this ?k)]"
        and c1: "calls w1 = Suc (calls w)"
        and o1: "observed w1 = observed w
                    @ replicate 2 (?k, errors this, errorLoop this)
                    @ replicate 3 (?k, errors this @ [e], errorLoop this)"
      by (auto simp: this1_def)
    from guard it "1.prems"(1) have rl: "run_loop this1 w1 = (f, this', w')"
      by (simp add: run_loop.simps)
    have p1: "\<forall>n. task this1 n \<noteq> Resolves \<and> task this1 n \<noteq> Rejects Nullish"
      "errorListeners this1 \<noteq> 0" "\<not> errorLoop this1"
      "attempts this1 \<le> maxAttempts this1"
      "int (length (errors this1)) + (maxAttempts this1 - attempts this1) < errorThreshold this1"
      using "1.prems" True by (simp_all add: this1_def)
    from "1.IH" [OF guard it [symmetric] refl refl rl p1]
    obtain os where ih: "f = Next" "attempts this' = maxAttempts this" "\<not> errorLoop this'"
      "int (length (errors this')) = int (length (errors this)) + (maxAttempts this - attempts this)"
      "calls w' = calls w1 + nat (maxAttempts this - ?k)"
      "observed w' = observed w1 @ os" "\<forall>s \<in> set os. \<not> snd (snd s)"
      "?k < maxAttempts this \<longrightarrow>
          (\<exists>pre. trace w' = trace w1 @ pre @ [Sleep (backoff this (maxAttempts this))])"
      by (auto simp: this1_def backoff_def)
    have calls: "calls w' = calls w + nat (maxAttempts this - attempts this)"
      using ih(5) c1 True by simp
    have obs: "\<exists>os. observed w' = observed w @ os \<and> (\<forall>s \<in> set os. \<not> snd (snd s))"
      using ih(6,7) o1 guard by auto
    have "\<exists>pre. trace w' = trace w @ pre @ [Sleep (backoff this (maxAttempts this))]"
    proof (cases "?k < maxAttempts this")
      case True
      with ih(8) obtain pre where "trace w' = trace w1 @ pre @ [Sleep (backoff this (maxAttempts this))]"
        by auto
      with tr1 have "trace w' = trace w @ (failed_attempt ?k e
                    @ [Emit (ErrorEvent ?k e), Sleep (backoff this ?k)] @ pre)
                    @ [Sleep (backoff this (maxAttempts this))]"
        by simp
      then show ?thesis by blast
    next
      case False
      with True have k: "?k = maxAttempts this" by simp
      then have "\<not> attempts this1 < maxAttempts this1"
        by (simp add: this1_def)
      with rl have "w' = w1"
        by (simp add: run_loop.simps)
      with tr1 k have "trace w' = trace w @ (failed_attempt ?k e @ [Emit (ErrorEvent ?k e)])
                    @ [Sleep (backoff this (maxAttempts this))]"
        by simp
      then show ?thesis by blast
    qed
    with ih(1-4) calls obs show ?thesis
      by simp
  qed
qed

lemma always_failing_exhausts:
  assumes "run_state this = (0, [], False)"
    and "0 < maxAttempts this"
    and "maxAttempts this < errorThreshold this"
    and "\<forall>n. task this n \<noteq> Resolves \<and> task this n \<noteq> Rejects Nullish"
    and "errorListeners this \<noteq> 0"
    and "runTask this w = (r, this', w')"
  shows "r = Fulfilled \<and> calls w' = calls w + nat (maxAttempts this)
         \<and> attempts this' = maxAttempts this \<and> length (errors this') = nat (maxAttempts this)
         \<and> \<not> errorLoop this'
         \<and> (\<forall>s \<in> set (new_observed w w'). \<not> snd (snd s))
         \<and> (\<exists>pre. new_trace w w' =
                pre @ [Sleep (backoff this (maxAttempts this)), Emit (Failure (errors this'))])"
proof -
  from assms(1) have st: "attempts this = 0" "errors this = []" "\<not> errorLoop this"
    by (simp_all add: run_state_def)
  obtain f this1 w1 where rl: "run_loop this w = (f, this1, w1)"
    by (cases "run_loop this w") auto
  from run_loop_exhausts [OF rl assms(4,5) st(3)] st assms(2,3)
  obtain os pre where l: "f = Next" "attempts this1 = maxAttempts this" "\<not> errorLoop this1"
    "int (length (errors this1)) = maxAttempts this"
    "calls w1 = calls w + nat (maxAttempts this)"
    "observed w1 = observed w @ os" "\<forall>s \<in> set os. \<not> snd (snd s)"
    "trace w1 = trace w @ pre @ [Sleep (backoff this (maxAttempts this))]"
    by auto
  from assms(6) rl l(1,3)
  have res: "r = Fulfilled" "this' = this1" "w' = emit (Failure (errors this1)) this1 w1"
    by (auto simp: runTask_def)
  have "observed w' = observed w @ os @ [run_state this1]"
    using res l(6) by simp
  then have "new_observed w w' = os @ [run_state this1]"
    by simp
  with l(3,7) have obs: "\<forall>s \<in> set (new_observed w w'). \<not> snd (snd s)"
    by (simp add: run_state_def)
  have "trace w' = trace w @ pre @ [Sleep (backoff this (maxAttempts this)), Emit (Failure (errors this1))]"
    using res l(8) by simp
  then have "new_trace w w' = pre @ [Sleep (backoff this (maxAttempts this)), Emit (Failure (errors this1))]"
    by simp
  with res l obs show ?thesis
    by auto
qed

text \<open>
  The same when the threshold is positive and at most \<^verbatim>\<open>maxAttempts\<close>, and the
  strategy does not reject with \<^verbatim>\<open>null\<close> or \<^verbatim>\<open>undefined\<close>: the task is called
  \<^verbatim>\<open>errorThreshold\<close> times; the strategy is called on an instance whose
  \<^verbatim>\<open>errorLoop\<close> is true, with \<^verbatim>\<open>errorThreshold\<close> errors; \<^verbatim>\<open>errorLoop\<close> is still
  true in the state in which \<^verbatim>\<open>reflectionExit\<close> is published, the last action of the run;
  and when the run is over the run state is reset as a whole: no attempts, no errors,
  \<^verbatim>\<open>errorLoop\<close> false.
\<close>

lemma run_loop_reflects:
  "run_loop this w = (f, this', w') \<Longrightarrow>
   \<forall>n. task this n \<noteq> Resolves \<and> task this n \<noteq> Rejects Nullish \<Longrightarrow>
   errorListeners this \<noteq> 0 \<Longrightarrow> \<not> errorLoop this \<Longrightarrow>
   \<forall>es. onReflection this es \<noteq> Rejects Nullish \<Longrightarrow>
   int (length (errors this)) < errorThreshold this \<Longrightarrow>
   errorThreshold this - int (length (errors this)) \<le> maxAttempts this - attempts this \<Longrightarrow>
     f = Next \<and> errorLoop this' \<and> int (length (errors this')) = errorThreshold this
     \<and> attempts this' = attempts this + (errorThreshold this - int (length (errors this)))
     \<and> calls w' = calls w + nat (errorThreshold this - int (length (errors this)))
     \<and> (\<exists>pre. trace w' = trace w @ pre
            @ [CallOnReflection True (errors this'), reflection_result this (errors this')])"
proof (induction this w arbitrary: f this' w' rule: run_loop.induct)
  case (1 this w)
  from "1.prems"(4,6,7) have guard: "attempts this < maxAttempts this \<and> \<not> errorLoop this"
    by simp
  from "1.prems"(2) obtain e where e: "task this (calls w) = Rejects e" "e \<noteq> Nullish"
    by (metis outcome.exhaust)
  from "1.prems"(5) have strat: "onReflection this (errors this @ [e]) \<noteq> Rejects Nullish"
    by simp
  let ?k = "attempts this + 1"
  show ?case
  proof (cases "errorThreshold this \<le> int (length (errors this)) + 1")
    case True
    define this1 where "this1 = this\<lparr>attempts := ?k, errors := errors this @ [e], errorLoop := True\<rparr>"
    from iteration_reflect [OF e "1.prems"(3) True strat] obtain w1
      where it: "iteration this w = (Next, this1, w1)"
        and tr1: "trace w1 = trace w @ failed_attempt ?k e
                    @ [Emit (ErrorEvent ?k e), CallOnReflection True (errors this @ [e]),
                       reflection_result this (errors this @ [e])]"
        and c1: "calls w1 = Suc (calls w)"
      by (auto simp: this1_def)
    have "run_loop this1 w1 = (Next, this1, w1)"
      by (simp add: run_loop.simps this1_def)
    with guard it "1.prems"(1) have res: "f = Next" "this' = this1" "w' = w1"
      by (simp_all add: run_loop.simps)
    from True "1.prems"(6) have len: "errorThreshold this = int (length (errors this)) + 1"
      by simp
    from tr1 have "trace w1 = trace w @ (failed_attempt ?k e @ [Emit (ErrorEvent ?k e)])
                    @ [CallOnReflection True (errors this1), reflection_result this (errors this1)]"
      by (simp add: this1_def)
    then have "\<exists>pre. trace w1 = trace w @ pre
                    @ [CallOnReflection True (errors this1), reflection_result this (errors this1)]"
      by blast
    with res c1 len show ?thesis
      by (simp add: this1_def)
  next
    case False
    then have below: "int (length (errors this)) + 1 < errorThreshold this"
      by simp
    define this1 where "this1 = this\<lparr>attempts := ?k, errors := errors this @ [e]\<rparr>"
    from iteration_backoff [OF e "1.prems"(3) below] obtain w1
      where it: "iteration this w = (Next, this1, w1)"
        and tr1: "trace w1 = trace w @ failed_attempt ?k e
                    @ [Emit (ErrorEvent ?k e), Sleep (backoff this ?k)]"
        and c1: "calls w1 = Suc (calls w)"
      by (auto simp: this1_def)
    from guard it "1.prems"(1) have rl: "run_loop this1 w1 = (f, this', w')"
      by (simp add: run_loop.simps)
    have p1: "\<forall>n. task this1 n \<noteq> Resolves \<and> task this1 n \<noteq> Rejects Nullish"
      "errorListeners this1 \<noteq> 0" "\<not> errorLoop this1"
      "\<forall>es. onReflection this1 es \<noteq> Rejects Nullish"
      "int (length (errors this1)) < errorThreshold this1"
      "errorThreshold this1 - int (length (errors this1)) \<le> maxAttempts this1 - attempts this1"
      using "1.prems" below by (simp_all add: this1_def)
    from "1.IH" [OF guard it [symmetric] refl refl rl p1]
    obtain pre where ih: "f = Next" "errorLoop this'"
      "int (length (errors this')) = errorThreshold this"
      "attempts this' = attempts this + (errorThreshold this - int (length (errors this)))"
      "calls w' = calls w1 + nat (errorThreshold this - (int (length (errors this)) + 1))"
      "trace w' = trace w1 @ pre
            @ [CallOnReflection True (errors this'), reflection_result this (errors this')]"
      by (auto simp: this1_def reflection_result_def)
    have calls: "calls w' = calls w + nat (errorThreshold this - int (length (errors this)))"
      using ih(5) c1 below by simp
    from ih(6) tr1 have "trace w' = trace w @ (failed_attempt ?k e
                    @ [Emit (ErrorEvent ?k e), Sleep (backoff this ?k)] @ pre)
            @ [CallOnReflection True (errors this'), reflection_result this (errors this')]"
      by simp
    then have "\<exists>pre. trace w' = trace w @ pre
            @ [CallOnReflection True (errors this'), reflection_result this (errors this')]"
      by blast
    with ih(1-4) calls show ?thesis
      by simp
  qed
qed

lemma always_failing_reflects:
  assumes "run_state this = (0, [], False)"
    and "0 < errorThreshold this"
    and "errorThreshold this \<le> maxAttempts this"
    and "\<forall>n. task this n \<noteq> Resolves \<and> task this n \<noteq> Rejects Nullish"
    and "errorListeners this \<noteq> 0"
    and "\<forall>es. onReflection this es \<noteq> Rejects Nullish"
    and "runTask this w = (r, this', w')"
  shows "r = Fulfilled \<and> calls w' = calls w + nat (errorThreshold this)
         \<and> (\<exists>pre es. new_trace w w' =
                pre @ [CallOnReflection True es, reflection_result this es, Emit ReflectionExit]
              \<and> length es = nat (errorThreshold this)
              \<and> last (observed w') = (errorThreshold this, es, True))
         \<and> run_state this' = (0, [], False)"
proof -
  from assms(1) have st: "attempts this = 0" "errors this = []" "\<not> errorLoop this"
    by (simp_all add: run_state_def)
  obtain f this1 w1 where rl: "run_loop this w = (f, this1, w1)"
    by (cases "run_loop this w") auto
  from run_loop_reflects [OF rl assms(4,5) st(3) assms(6)] st assms(2,3)
  obtain pre where l: "f = Next" "errorLoop this1"
    "int (length (errors this1)) = errorThreshold this"
    "attempts this1 = errorThreshold this"
    "calls w1 = calls w + nat (errorThreshold this)"
    "trace w1 = trace w @ pre
            @ [CallOnReflection True (errors this1), reflection_result this (errors this1)]"
    by auto
  from assms(7) rl l(1,2)
  have res: "r = Fulfilled" "this' = reset this1" "w' = emit ReflectionExit this1 w1"
    by (auto simp: runTask_def Let_def)
  have "trace w' = trace w @ pre @ [CallOnReflection True (errors this1),
          reflection_result this (errors this1), Emit ReflectionExit]"
    using res l(6) by simp
  then have "new_trace w w' = pre @ [CallOnReflection True (errors this1),
          reflection_result this (errors this1), Emit ReflectionExit]"
    by simp
  moreover have "length (errors this1) = nat (errorThreshold this)"
    using l(3) by simp
  moreover have "last (observed w') = (errorThreshold this, errors this1, True)"
    using res l(2,4) by (simp add: run_state_def)
  ultimately have "\<exists>pre es. new_trace w w' =
                pre @ [CallOnReflection True es, reflection_result this es, Emit ReflectionExit]
              \<and> length es = nat (errorThreshold this)
              \<and> last (observed w') = (errorThreshold this, es, True)"
    by blast
  with res l(5) show ?thesis
    by (simp add: reset_def run_state_def)
qed


section \<open>A reflection strategy that fails\<close>

text \<open>
  When the strategy that a run calls rejects with a value other than \<^verbatim>\<open>null\<close> and
  \<^verbatim>\<open>undefined\<close>: the instance it is called on has \<^verbatim>\<open>errorLoop\<close> true already;
  \<^verbatim>\<open>runTask\<close> is fulfilled all the same; the run ends with the call, the record of the
  failed reflection given to the logger, and the \<^verbatim>\<open>reflectionExit\<close> notification; no
  \<^verbatim>\<open>reflection\<close> notification is published; \<^verbatim>\<open>errorLoop\<close> is still true in the
  state in which \<^verbatim>\<open>reflectionExit\<close> is published; and the run state is reset when the
  run is over.
\<close>

lemma rejecting_strategy_contained:
  assumes "runTask this w = (r, this', w')"
    and "CallOnReflection b es \<in> set (new_trace w w')"
    and "onReflection this es = Rejects x"
    and "x \<noteq> Nullish"
  shows "b \<and> r = Fulfilled
         \<and> (\<exists>pre. new_trace w w' =
                    pre @ [CallOnReflection True es,
                           LoggerError (ReflectionFailed (message x) (stack x)),
                           Emit ReflectionExit])
         \<and> (\<forall>es'. Emit (Reflection es') \<notin> set (new_trace w w'))
         \<and> snd (snd (last (observed w')))
         \<and> run_state this' = (0, [], False)"
proof (cases "errorLoop this")
  case True
  then have "run_loop this w = (Next, this, w)"
    by (simp add: run_loop.simps)
  with assms(1) True have "trace w' = trace w @ [Emit ReflectionExit]"
    by (auto simp: runTask_def Let_def)
  then have "new_trace w w' = [Emit ReflectionExit]"
    by simp
  with assms(2) show ?thesis
    by simp
next
  case False
  from runTask_trace [OF assms(1) False] obtain en
    where en: "run_trace this (attempts this) (errors this) en (new_trace w w')"
      and out: "case en of
                 Exhausted \<Rightarrow> r = Fulfilled \<and> \<not> errorLoop this'
               | Succeeded \<Rightarrow> r = Fulfilled
               | Unhandled x \<Rightarrow> r = Rejected x
               | Reflected \<Rightarrow> r = Fulfilled \<and> run_state this' = (0, [], False)
                              \<and> snd (snd (last (observed w')))"
    by auto
  from run_trace_reflection [OF en assms(2)] assms(3,4)
  obtain pre where pre: "b" "en = Reflected"
    "new_trace w w' = pre @ [CallOnReflection True es, reflection_result this es, Emit ReflectionExit]"
    "\<forall>x. Emit (Reflection x) \<notin> set pre"
    by auto
  have rr: "reflection_result this es = LoggerError (ReflectionFailed (message x) (stack x))"
    using assms(3) by (simp add: reflection_result_def)
  from pre(3,4) rr have "\<forall>es'. Emit (Reflection es') \<notin> set (new_trace w w')"
    by simp
  with pre rr out show ?thesis
    by simp
qed

text \<open>
  When it rejects with \<^verbatim>\<open>null\<close> or \<^verbatim>\<open>undefined\<close>, \<^verbatim>\<open>runTask\<close> is rejected and the
  call of the strategy is the last action of the run: nothing is logged and
  \<^verbatim>\<open>reflectionExit\<close> is not published.
\<close>

lemma nullish_strategy_escapes:
  assumes "runTask this w = (r, this', w')"
    and "CallOnReflection b es \<in> set (new_trace w w')"
    and "onReflection this es = Rejects Nullish"
  shows "r = Rejected TypeError \<and> (\<exists>pre. new_trace w w' = pre @ [CallOnReflection True es])"
proof (cases "errorLoop this")
  case True
  then have "run_loop this w = (Next, this, w)"
    by (simp add: run_loop.simps)
  with assms(1) True have "trace w' = trace w @ [Emit ReflectionExit]"
    by (auto simp: runTask_def Let_def)
  then have "new_trace w w' = [Emit ReflectionExit]"
    by simp
  with assms(2) show ?thesis
    by simp
next
  case False
  from runTask_trace [OF assms(1) False] obtain en
    where en: "run_trace this (attempts this) (errors this) en (new_trace w w')"
      and out: "case en of
                 Exhausted \<Rightarrow> r = Fulfilled \<and> \<not> errorLoop this'
               | Succeeded \<Rightarrow> r = Fulfilled
               | Unhandled x \<Rightarrow> r = Rejected x
               | Reflected \<Rightarrow> r = Fulfilled \<and> run_state this' = (0, [], False)
                              \<and> snd (snd (last (observed w')))"
    by auto
  from run_trace_reflection [OF en assms(2)] assms(3)
  have "en = Unhandled TypeError" "\<exists>pre. new_trace w w' = pre @ [CallOnReflection True es]"
    by auto
  with out show ?thesis
    by simp
qed

text \<open>
  C6. An instance with a listener, a task that always rejects, the threshold 1, and a
  strategy that rejects with \<^verbatim>\<open>undefined\<close>: the first failed attempt calls the
  strategy, reading \<^verbatim>\<open>reflectionError.message\<close> in the \<^verbatim>\<open>catch\<close> block throws, and
  \<^verbatim>\<open>runTask\<close> is rejected with the \<^verbatim>\<open>TypeError\<close>. Nothing about the failed
  reflection is logged, \<^verbatim>\<open>reflectionExit\<close> is not published, and the run state is not
  reset: \<^verbatim>\<open>errorLoop\<close> stays true.
\<close>

theorem nullish_reflection_run:
  "summary (construct_and_run True
      ((test_options mockRejected 5 1)\<lparr>opt_onReflection := Some nullishReflection\<rparr>)) =
     Inr (Rejected TypeError, (1, [testError], True), 1,
          failed_round 1 @ [CallOnReflection True [testError]])"
  by (simp add: eval_defs constructor_def test_options_def or_default_def or_default_string_def
        construct_and_run_def summary_def failed_round_def)

text \<open>The same instance with a strategy that rejects with an \<^verbatim>\<open>Error\<close> object.\<close>

lemma failing_reflection_run:
  "summary (construct_and_run True
      ((test_options mockRejected 5 1)\<lparr>opt_onReflection := Some failingReflection\<rparr>)) =
     Inr (Fulfilled, (0, [], False), 1,
          failed_round 1
          @ [CallOnReflection True [testError],
             LoggerError (ReflectionFailed (Some ''Reflection Error'')
                            (Some ''Error: Reflection Error'')),
             Emit ReflectionExit])"
  by (simp add: eval_defs constructor_def test_options_def or_default_def or_default_string_def
        construct_and_run_def summary_def failed_round_def)

section \<open>The tests of the repository\<close>

text \<open>
  A new instance has no listener for \<^verbatim>\<open>'error'\<close>, and the tests register none. The
  first failed attempt then ends the run: \<^verbatim>\<open>this.emit('error', ...)\<close> throws inside the
  \<^verbatim>\<open>catch\<close> block, after the error is recorded and logged, and \<^verbatim>\<open>runTask\<close> is
  rejected.
\<close>

text \<open>
  C1. The instance of the test \<^emph>\<open>should enter reflection phase after reaching error
  threshold\<close> (\<^verbatim>\<open>maxAttempts\<close> 5, \<^verbatim>\<open>errorThreshold\<close> 3, a task that always rejects).
  As the test runs it, without a listener, the task is called once and \<^verbatim>\<open>runTask\<close> is
  rejected. With a listener the task is called three times and the strategy is called on
  an instance whose \<^verbatim>\<open>errorLoop\<close> is true, but after the run \<^verbatim>\<open>errorLoop\<close> is false:
  the reset clears it with the attempts and the errors.
\<close>

theorem reflection_test_run:
  "summary (construct_and_run False (test_options mockRejected 5 3)) =
     Inr (Rejected (ERR_UNHANDLED_ERROR 1 testError), (1, [testError], False), 1,
          [Emit (BeforeAttempt 1), CallTask,
           LoggerError (AttemptFailed 1 (Some ''Test Error'') (Some ''Error: Test Error''))])
   \<and> summary (construct_and_run True (test_options mockRejected 5 3)) =
     Inr (Fulfilled, (0, [], False), 3,
          failed_round 1 @ [Sleep (test_delay 1)] @ failed_round 2 @ [Sleep (test_delay 2)]
          @ failed_round 3
          @ [CallOnReflection True [testError, testError, testError],
             Emit (Reflection [testError, testError, testError]),
             Emit ReflectionExit])"
  by (simp add: eval_defs constructor_test_options construct_and_run_def summary_def
        failed_round_def)

text \<open>
  C8. With the default options, a task that rejects and no listener, \<^verbatim>\<open>runTask\<close> is
  rejected with the unhandled error notification of attempt 1.
\<close>

theorem runTask_rejected_without_listener:
  "summary (construct_and_run False
      \<lparr> opt_task = Function mockRejected, opt_maxAttempts = None, opt_errorThreshold = None,
        opt_backoffFactor = None, opt_initialDelay = None, opt_onReflection = None,
        opt_logFile = None \<rparr>) =
     Inr (Rejected (ERR_UNHANDLED_ERROR 1 testError), (1, [testError], False), 1,
          [Emit (BeforeAttempt 1), CallTask,
           LoggerError (AttemptFailed 1 (Some ''Test Error'') (Some ''Error: Test Error''))])"
  by (simp add: eval_defs constructor_def or_default_def or_default_string_def
        construct_and_run_def summary_def)

text \<open>
  C3. The instance of the test \<^emph>\<open>should respect maxAttempts\<close> (\<^verbatim>\<open>maxAttempts\<close> 4,
  \<^verbatim>\<open>errorThreshold\<close> 5, a task that always rejects, no listener): the task is called
  once, \<^verbatim>\<open>runTask\<close> is rejected, and no \<^verbatim>\<open>failure\<close> notification is published.
\<close>

theorem maxAttempts_test_run:
  "summary (construct_and_run False (test_options mockRejected 4 5)) =
     Inr (Rejected (ERR_UNHANDLED_ERROR 1 testError), (1, [testError], False), 1,
          [Emit (BeforeAttempt 1), CallTask,
           LoggerError (AttemptFailed 1 (Some ''Test Error'') (Some ''Error: Test Error''))])"
  by (simp add: eval_defs constructor_test_options construct_and_run_def summary_def)

text \<open>The same instance with a listener: four attempts, each followed by its delay.\<close>

lemma maxAttempts_test_run_with_listener:
  "summary (construct_and_run True (test_options mockRejected 4 5)) =
     Inr (Fulfilled, (4, [testError, testError, testError, testError], False), 4,
          failed_round 1 @ [Sleep (test_delay 1)] @ failed_round 2 @ [Sleep (test_delay 2)]
          @ failed_round 3 @ [Sleep (test_delay 3)] @ failed_round 4 @ [Sleep (test_delay 4)]
          @ [Emit (Failure [testError, testError, testError, testError])])"
  by (simp add: eval_defs constructor_test_options construct_and_run_def summary_def
        failed_round_def)

text \<open>
  C10. With \<^verbatim>\<open>maxAttempts\<close> 1, the threshold 3, a task that rejects and no listener,
  the only attempt is the final one and it fails below the threshold: no delay follows it
  and no \<^verbatim>\<open>failure\<close> notification is published.
\<close>

theorem final_attempt_without_listener:
  "summary (construct_and_run False (test_options mockRejected 1 3)) =
     Inr (Rejected (ERR_UNHANDLED_ERROR 1 testError), (1, [testError], False), 1,
          [Emit (BeforeAttempt 1), CallTask,
           LoggerError (AttemptFailed 1 (Some ''Test Error'') (Some ''Error: Test Error''))])"
  by (simp add: eval_defs constructor_test_options construct_and_run_def summary_def)

text \<open>The same instance with a listener: the delay of the only attempt, then the failure.\<close>

lemma final_attempt_with_listener:
  "summary (construct_and_run True (test_options mockRejected 1 3)) =
     Inr (Fulfilled, (1, [testError], False), 1,
          failed_round 1 @ [Sleep (test_delay 1), Emit (Failure [testError])])"
  by (simp add: eval_defs constructor_test_options construct_and_run_def summary_def
        failed_round_def)

text \<open>
  A task that rejects with \<^verbatim>\<open>undefined\<close>, on an instance with a listener: the error is
  pushed, building the log record throws, and \<^verbatim>\<open>runTask\<close> is rejected.
\<close>

lemma nullish_task_run:
  "summary (construct_and_run True (test_options (\<lambda>n. Rejects Nullish) 5 3)) =
     Inr (Rejected TypeError, (1, [Nullish], False), 1, [Emit (BeforeAttempt 1), CallTask])"
  by (simp add: eval_defs constructor_test_options construct_and_run_def summary_def)

end
